theory Spec2Isabelle
  imports Main "HOL-Library.Sublist" "HOL-Library.List_Lexorder"
begin

section \<open>The large-file reporter of \<^verbatim>\<open>scripts/find_large_rs.py\<close>\<close>

text \<open>
  The script walks the tree under \<^verbatim>\<open>Path(__file__).parent.parent\<close>, keeps the
  \<^verbatim>\<open>*.rs\<close> paths that no exclusion rule matches, counts their lines with
  \<^verbatim>\<open>str.splitlines\<close>, and prints those with at least \<^verbatim>\<open>max_size\<close> lines,
  largest first. The embedding follows the script line by line. What the script takes
  from its surroundings (the anchor directory, what the traversal finds, what reading a
  file gives, how the path flavour folds case, what standard output can encode) is a record
  of the model, so that every theorem holds for every file tree.
\<close>

subsection \<open>Strings and paths\<close>

text \<open>
  A Python \<^verbatim>\<open>str\<close> is the list of its code points, and two strings compare as Python
  compares them: code point by code point. A file name that is not valid UTF-8 reaches the
  script with the code points \<^verbatim>\<open>U+DC80\<close> to \<^verbatim>\<open>U+DCFF\<close> in the place of its
  undecodable bytes; such a name is a list of code points like any other.
\<close>

type_synonym pystr = "nat list"

definition lit :: "string \<Rightarrow> pystr" where
  \<comment> \<open>a string literal of the source\<close>
  "lit s = map of_char s"

text \<open>
  A \<^verbatim>\<open>pathlib\<close> path is the tuple of its parts; an absolute POSIX path has the
  part \<^verbatim>\<open>"/"\<close> first. Two paths compare part by part, each part as a string, after the
  case folding of the path flavour (none on POSIX, lower case on Windows): the
  lexicographic order on the lists of the folded parts. (Python 3.12 and later compare the
  pieces of the folded \<^verbatim>\<open>str(path)\<close> between the separators instead of the parts; for
  the paths of one run, which all begin with the parts of the root, that is the same order.)
\<close>

type_synonym path = "pystr list"

definition parts :: "path \<Rightarrow> pystr list" where
  "parts p = p"

definition name :: "path \<Rightarrow> pystr" where
  \<comment> \<open>the final component, the empty string for a path that has none\<close>
  "name p = (case rev p of [] \<Rightarrow> [] | c # _ \<Rightarrow> if c = lit ''/'' then [] else c)"

datatype exn = OSError | UnicodeDecodeError | UnicodeEncodeError | MemoryError | ValueError

definition relative_to :: "(pystr \<Rightarrow> pystr) \<Rightarrow> path \<Rightarrow> path \<Rightarrow> exn + path" where
  \<comment> \<open>the first argument is the case folding of the flavour, under which the parts are
      compared\<close>
  "relative_to cf p other =
     (if map cf (take (length other) p) = map cf other then Inr (drop (length other) p)
      else Inl ValueError)"

fun join :: "pystr \<Rightarrow> pystr list \<Rightarrow> pystr" where
  "join sep [] = []"
| "join sep [s] = s"
| "join sep (s # t # ss) = s @ sep @ join sep (t # ss)"

definition path_str :: "path \<Rightarrow> pystr" where
  \<comment> \<open>\<^verbatim>\<open>str(path)\<close>\<close>
  "path_str p =
     (case p of
        [] \<Rightarrow> lit ''.''
      | r # cs \<Rightarrow> if r = lit ''/'' then lit ''/'' @ join (lit ''/'') cs
                  else join (lit ''/'') (r # cs))"

fun contains :: "pystr \<Rightarrow> pystr \<Rightarrow> bool" where
  \<comment> \<open>\<^verbatim>\<open>sub in s\<close> on strings\<close>
  "contains sub [] = (sub = [])"
| "contains sub (c # cs) = (prefix sub (c # cs) \<or> contains sub cs)"

subsection \<open>Line counting\<close>

text \<open>
  \<^verbatim>\<open>str.splitlines\<close> ends a line at each of the line boundaries of the Python
  documentation (\<^verbatim>\<open>\n \r \r\n \v \f \x1c \x1d \x1e \x85\<close> and the code points U+2028
  and U+2029), takes \<^verbatim>\<open>\r\n\<close> as one boundary, and gives no empty last line after a
  final boundary.
\<close>

definition LF :: nat where "LF = 10"
definition CR :: nat where "CR = 13"

definition is_linebreak :: "nat \<Rightarrow> bool" where
  "is_linebreak c = (c \<in> set [LF, 11, 12, CR, 28, 29, 30, 133, 8232, 8233])"

fun splitlines_from :: "pystr \<Rightarrow> pystr \<Rightarrow> pystr list" where
  \<comment> \<open>the first argument is the line read so far\<close>
  "splitlines_from cur [] = (if cur = [] then [] else [cur])"
| "splitlines_from cur (c # cs) =
     (if is_linebreak c then
        cur # splitlines_from []
                (if c = CR \<and> cs \<noteq> [] \<and> hd cs = LF then tl cs else cs)
      else splitlines_from (cur @ [c]) cs)"

definition splitlines :: "pystr \<Rightarrow> pystr list" where
  "splitlines s = splitlines_from [] s"

definition line_count :: "pystr \<Rightarrow> int" where
  \<comment> \<open>\<^verbatim>\<open>len(text.splitlines())\<close>\<close>
  "line_count s = int (length (splitlines s))"

subsection \<open>Formatting\<close>

definition digit :: "nat \<Rightarrow> nat" where
  \<comment> \<open>the character of a decimal digit\<close>
  "digit d = 48 + d"

fun str_nat :: "nat \<Rightarrow> pystr" where
  "str_nat n = (if n < 10 then [digit n] else str_nat (n div 10) @ [digit (n mod 10)])"

declare str_nat.simps [simp del]

definition str_int :: "int \<Rightarrow> pystr" where
  \<comment> \<open>\<^verbatim>\<open>{i}\<close> in an f-string\<close>
  "str_int i = (if i < 0 then lit ''-'' @ str_nat (nat (- i)) else str_nat (nat i))"

definition rjust :: "nat \<Rightarrow> pystr \<Rightarrow> pystr" where
  \<comment> \<open>\<^verbatim>\<open>{s:>w}\<close>: padded with spaces on the left to width w, never cut\<close>
  "rjust w s = replicate (w - length s) 32 @ s"

subsection \<open>The environment of one run\<close>

record env =
  root :: path
    \<comment> \<open>\<^verbatim>\<open>Path(__file__).parent.parent\<close>\<close>
  listing :: "path list"
    \<comment> \<open>everything below the root, each as its path relative to the root, in the order
        the traversal meets it\<close>
  read_text :: "path \<Rightarrow> exn + pystr"
    \<comment> \<open>\<^verbatim>\<open>path.read_text(encoding="utf-8")\<close>: the text, or the exception raised\<close>
  casefold :: "pystr \<Rightarrow> pystr"
    \<comment> \<open>the case folding of a part by the path flavour, applied where paths are compared\<close>
  encodable :: "nat \<Rightarrow> bool"
    \<comment> \<open>the code points beyond ASCII that the encoding and the error handler of standard
        output can write\<close>

definition can_encode :: "env \<Rightarrow> nat \<Rightarrow> bool" where
  \<comment> \<open>the encodings of standard output are ASCII-compatible\<close>
  "can_encode e c = (c < 128 \<or> encodable e c)"

definition print :: "env \<Rightarrow> pystr \<Rightarrow> pystr \<Rightarrow> exn + pystr" where
  \<comment> \<open>\<^verbatim>\<open>print(s)\<close> when standard output holds \<open>out\<close>: what it holds afterwards, or the
      exception; a string that cannot be encoded is not written at all\<close>
  "print e s out =
     (if list_all (can_encode e) s then Inr (out @ s @ [LF]) else Inl UnicodeEncodeError)"

definition fnmatch_rs :: "pystr \<Rightarrow> bool" where
  \<comment> \<open>the pattern \<^verbatim>\<open>*.rs\<close>\<close>
  "fnmatch_rs n = suffix (lit ''.rs'') n"

definition rglob :: "env \<Rightarrow> path list" where
  \<comment> \<open>\<^verbatim>\<open>root.rglob("*.rs")\<close>\<close>
  "rglob e = map (\<lambda>rel. root e @ rel) (filter (\<lambda>rel. fnmatch_rs (name rel)) (listing e))"

definition sorted_paths :: "env \<Rightarrow> path list \<Rightarrow> path list" where
  \<comment> \<open>\<^verbatim>\<open>sorted(paths)\<close>: a stable sort by the folded parts\<close>
  "sorted_paths e ps = sort_key (\<lambda>p. map (casefold e) (parts p)) ps"

subsection \<open>The script\<close>

definition skipped :: "path \<Rightarrow> bool" where
  \<comment> \<open>the condition of the \<^verbatim>\<open>continue\<close>\<close>
  "skipped p =
     (lit ''target'' \<in> set (parts p)
      \<or> lit ''test'' \<in> set (parts p)
      \<or> contains (lit ''test.rs'') (name p)
      \<or> name p = lit ''bindings.rs'')"

definition try_body :: "env \<Rightarrow> int \<Rightarrow> path \<Rightarrow> (path \<times> int) list \<Rightarrow> exn + (path \<times> int) list" where
  \<comment> \<open>the body of the \<^verbatim>\<open>try\<close>: the new \<^verbatim>\<open>large_files\<close>, or the exception\<close>
  "try_body e max_size p large_files =
     (case read_text e p of
        Inl x \<Rightarrow> Inl x
      | Inr txt \<Rightarrow>
          let loc = line_count txt in
          if loc \<ge> max_size then
            (case relative_to (casefold e) p (root e) of
               Inl x \<Rightarrow> Inl x
             | Inr rel \<Rightarrow> Inr (large_files @ [(rel, loc)]))
          else Inr large_files)"

fun scan :: "env \<Rightarrow> int \<Rightarrow> path list \<Rightarrow> (path \<times> int) list \<Rightarrow> (path \<times> int) list" where
  \<comment> \<open>the \<^verbatim>\<open>for\<close> loop; every \<^verbatim>\<open>exn\<close> is an \<^verbatim>\<open>Exception\<close>, so the handler
      catches it and leaves \<^verbatim>\<open>large_files\<close> as it was\<close>
  "scan e max_size [] large_files = large_files"
| "scan e max_size (p # rust_files) large_files =
     (if skipped p then scan e max_size rust_files large_files
      else scan e max_size rust_files
             (case try_body e max_size p large_files of
                Inl _ \<Rightarrow> large_files
              | Inr large_files' \<Rightarrow> large_files'))"

definition large_files :: "env \<Rightarrow> int \<Rightarrow> (path \<times> int) list" where
  \<comment> \<open>\<^verbatim>\<open>large_files\<close> after \<^verbatim>\<open>large_files.sort(key=lambda x: -x[1])\<close>; both sorts of
      the script are stable, as \<^const>\<open>sort_key\<close> is\<close>
  "large_files e max_size =
     sort_key (\<lambda>x. - snd x) (scan e max_size (sorted_paths e (rglob e)) [])"

definition entry_line :: "path \<times> int \<Rightarrow> pystr" where
  "entry_line x = (case x of (p, loc) \<Rightarrow>
     lit ''  '' @ rjust 5 (str_int loc) @ lit '' lines  '' @ path_str p)"

fun print_entries :: "env \<Rightarrow> (path \<times> int) list \<Rightarrow> pystr \<Rightarrow> pystr \<times> exn option" where
  \<comment> \<open>the second \<^verbatim>\<open>for\<close> loop, outside every \<^verbatim>\<open>try\<close>: an exception of
      \<^verbatim>\<open>print\<close> ends the run\<close>
  "print_entries e [] out = (out, None)"
| "print_entries e (x # xs) out =
     (case print e (entry_line x) out of
        Inl ex \<Rightarrow> (out, Some ex)
      | Inr out' \<Rightarrow> print_entries e xs out')"

definition main :: "env \<Rightarrow> int \<Rightarrow> pystr \<times> exn option" where
  \<comment> \<open>what one call writes to standard output, and the exception that ends it, if any\<close>
  "main e max_size =
     (let lf = large_files e max_size in
      if lf = [] then
        (case print e (lit ''No Rust files with '' @ str_int max_size @ lit ''+ LOC found.'') [] of
           Inl ex \<Rightarrow> ([], Some ex)
         | Inr out \<Rightarrow> (out, None))
      else
        (case print e (lit ''Rust files with '' @ str_int max_size @ lit ''+ LOC (''
                         @ str_int (int (length lf)) @ lit '' files):'' @ [LF]) [] of
           Inl ex \<Rightarrow> ([], Some ex)
         | Inr out \<Rightarrow> print_entries e lf out))"

definition script :: "env \<Rightarrow> int option \<Rightarrow> pystr \<times> exn option" where
  \<comment> \<open>a call of \<^verbatim>\<open>main\<close> with or without its argument: \<^verbatim>\<open>max_size: int = 500\<close>\<close>
  "script e arg = main e (case arg of None \<Rightarrow> 500 | Some n \<Rightarrow> n)"

definition dunder_main :: "env \<Rightarrow> pystr \<times> exn option" where
  \<comment> \<open>\<^verbatim>\<open>if __name__ == "__main__": main()\<close>\<close>
  "dunder_main e = script e None"

definition entry :: "env \<Rightarrow> int \<Rightarrow> path \<Rightarrow> (path \<times> int) list" where
  \<comment> \<open>what one round of the first loop appends to \<^verbatim>\<open>large_files\<close>\<close>
  "entry e max_size p =
     (if skipped p then []
      else case try_body e max_size p [] of Inl _ \<Rightarrow> [] | Inr xs \<Rightarrow> xs)"

subsection \<open>The wording of the specification, for comparison\<close>

text \<open>
  The specification counts lines by a "simple split-on-newline": the segments between the
  newline characters, the last one counted when it is not empty, so that an empty file
  has no line.
\<close>

fun split_from :: "nat \<Rightarrow> pystr \<Rightarrow> pystr \<Rightarrow> pystr list" where
  \<comment> \<open>the segments between the occurrences of one separator; the second argument is the
      segment read so far\<close>
  "split_from sep cur [] = [cur]"
| "split_from sep cur (c # cs) =
     (if c = sep then cur # split_from sep [] cs else split_from sep (cur @ [c]) cs)"

definition split_on_newline :: "pystr \<Rightarrow> pystr list" where
  "split_on_newline s = split_from LF [] s"

definition newline_line_count :: "pystr \<Rightarrow> int" where
  "newline_line_count s =
     (let segs = split_on_newline s
      in int (length (if last segs = [] then butlast segs else segs)))"

text \<open>
  The specification orders files of equal size by the string of their full path; the script
  orders them as it orders paths, part by part.
\<close>

definition string_tie_order :: "path \<Rightarrow> (path \<times> int) list \<Rightarrow> bool" where
  "string_tie_order r lf =
     sorted_wrt (\<lambda>x y. snd y < snd x
                    \<or> (snd x = snd y \<and> path_str (r @ fst x) \<le> path_str (r @ fst y))) lf"

definition parts_tie_order :: "(pystr \<Rightarrow> pystr) \<Rightarrow> path \<Rightarrow> (path \<times> int) list \<Rightarrow> bool" where
  \<comment> \<open>the first argument is the case folding of the flavour\<close>
  "parts_tie_order cf r lf =
     sorted_wrt (\<lambda>x y. snd y < snd x
                    \<or> (snd x = snd y
                        \<and> map cf (parts (r @ fst x)) \<le> map cf (parts (r @ fst y)))) lf"


subsection \<open>Five small file trees\<close>

text \<open>
  The trees are on POSIX (no case folding) and standard output is strict UTF-8: it encodes
  every code point but the surrogates.
\<close>

definition utf8_strict :: "nat \<Rightarrow> bool" where
  "utf8_strict c = (c < 1114112 \<and> \<not> (55296 \<le> c \<and> c \<le> 57343))"

text \<open>
  \<^verbatim>\<open>/p/src/b.rs\<close> has three lines, \<^verbatim>\<open>/p/a.rs\<close> two, \<^verbatim>\<open>/p/c.rs\<close> one;
  \<^verbatim>\<open>/p/x.rs\<close> cannot be read; \<^verbatim>\<open>/p/n.md\<close> is no Rust file.
\<close>

definition demo_read :: "path \<Rightarrow> exn + pystr" where
  "demo_read p =
     (if p = [lit ''/'', lit ''p'', lit ''src'', lit ''b.rs''] then Inr [97, 10, 98, 10, 99]
      else if p = [lit ''/'', lit ''p'', lit ''a.rs''] then Inr [97, 10, 98, 10]
      else if p = [lit ''/'', lit ''p'', lit ''c.rs''] then Inr [97]
      else Inl OSError)"

definition demo :: env where
  "demo = \<lparr> root = [lit ''/'', lit ''p''],
            listing = [[lit ''src'', lit ''b.rs''], [lit ''x.rs''], [lit ''c.rs''], [lit ''a.rs''],
                       [lit ''n.md'']],
            read_text = demo_read, casefold = (\<lambda>s. s), encodable = utf8_strict \<rparr>"

text \<open>Two files of one line each, \<^verbatim>\<open>/p/a-b/c.rs\<close> and \<^verbatim>\<open>/p/a/b.rs\<close>.\<close>

definition ties :: env where
  "ties = \<lparr> root = [lit ''/'', lit ''p''],
            listing = [[lit ''a-b'', lit ''c.rs''], [lit ''a'', lit ''b.rs'']],
            read_text = (\<lambda>p. Inr [97]), casefold = (\<lambda>s. s), encodable = utf8_strict \<rparr>"

text \<open>One file for each exclusion rule and one that no rule matches, of one line each.\<close>

definition excluded :: env where
  "excluded = \<lparr> root = [lit ''/'', lit ''p''],
                listing = [[lit ''target'', lit ''a.rs''], [lit ''src'', lit ''test'', lit ''a.rs''],
                           [lit ''x_test.rs''], [lit ''bindings.rs''], [lit ''ok.rs'']],
                read_text = (\<lambda>p. Inr [97]), casefold = (\<lambda>s. s), encodable = utf8_strict \<rparr>"

text \<open>A one-line file below an anchor directory that has a component \<^verbatim>\<open>target\<close>.\<close>

definition anchored :: env where
  "anchored = \<lparr> root = [lit ''/'', lit ''target'', lit ''p''],
                listing = [[lit ''a.rs'']],
                read_text = (\<lambda>p. Inr [97]), casefold = (\<lambda>s. s), encodable = utf8_strict \<rparr>"

text \<open>
  Two files of one line each: one whose name is the byte \<^verbatim>\<open>0x80\<close> (not UTF-8, so that
  the script sees the code point \<^verbatim>\<open>U+DC80\<close>) followed by \<^verbatim>\<open>.rs\<close>, and one whose name
  is the letter \<^verbatim>\<open>U+00E9\<close> followed by \<^verbatim>\<open>.rs\<close>.
\<close>

definition undecodable :: env where
  "undecodable = \<lparr> root = [lit ''/'', lit ''p''],
                   listing = [[56448 # lit ''.rs''], [233 # lit ''.rs'']],
                   read_text = (\<lambda>p. Inr [97]), casefold = (\<lambda>s. s), encodable = utf8_strict \<rparr>"

section \<open>Properties of the first loop\<close>

lemma try_body_acc:
  "try_body e T p acc = (case try_body e T p [] of Inl x \<Rightarrow> Inl x | Inr xs \<Rightarrow> Inr (acc @ xs))"
  by (simp add: try_body_def Let_def split: sum.splits)

lemma scan_concat: "scan e T ps acc = acc @ concat (map (entry e T) ps)"
proof (induction ps arbitrary: acc)
  case Nil
  show ?case by simp
next
  case (Cons p ps)
  show ?case
  proof (cases "skipped p")
    case True
    then show ?thesis by (simp add: Cons.IH entry_def)
  next
    case False
    then show ?thesis
      using try_body_acc [of e T p acc]
      by (simp add: Cons.IH entry_def split: sum.splits)
  qed
qed

lemma relative_to_root: "relative_to cf (r @ rel) r = Inr rel"
  by (simp add: relative_to_def)

lemma entry_under_root:
  "entry e T (root e @ rel) =
     (case read_text e (root e @ rel) of
        Inl _ \<Rightarrow> []
      | Inr txt \<Rightarrow> if \<not> skipped (root e @ rel) \<and> T \<le> line_count txt
                   then [(rel, line_count txt)] else [])"
  by (simp add: entry_def try_body_def relative_to_root Let_def split: sum.splits)

lemma entry_iff:
  "(r, loc) \<in> set (entry e T (root e @ rel)) \<longleftrightarrow>
     r = rel \<and> \<not> skipped (root e @ rel)
     \<and> (\<exists>txt. read_text e (root e @ rel) = Inr txt \<and> loc = line_count txt) \<and> T \<le> loc"
  by (cases "read_text e (root e @ rel)") (auto simp: entry_under_root)

lemma set_rglob:
  "set (rglob e) = {root e @ rel | rel. rel \<in> set (listing e) \<and> fnmatch_rs (name rel)}"
  by (auto simp: rglob_def)

lemma set_large_files:
  "set (large_files e T) = (\<Union>p \<in> set (rglob e). set (entry e T p))"
  by (simp add: large_files_def sorted_paths_def scan_concat)

text \<open>What is reported: the Rust files that no rule excludes, that can be read, and that
  have at least \<open>T\<close> lines, each with its number of lines.\<close>

lemma large_files_iff:
  "(rel, loc) \<in> set (large_files e T) \<longleftrightarrow>
     rel \<in> set (listing e) \<and> fnmatch_rs (name rel) \<and> \<not> skipped (root e @ rel)
     \<and> (\<exists>txt. read_text e (root e @ rel) = Inr txt \<and> loc = line_count txt) \<and> T \<le> loc"
proof -
  have "(rel, loc) \<in> set (large_files e T) \<longleftrightarrow>
          (\<exists>r. r \<in> set (listing e) \<and> fnmatch_rs (name r)
               \<and> (rel, loc) \<in> set (entry e T (root e @ r)))"
    unfolding set_large_files set_rglob by auto
  also have "\<dots> \<longleftrightarrow> rel \<in> set (listing e) \<and> fnmatch_rs (name rel)
               \<and> (rel, loc) \<in> set (entry e T (root e @ rel))"
    by (auto simp: entry_iff)
  finally show ?thesis by (simp add: entry_iff)
qed

lemma filter_entry:
  "T1 \<le> T2 \<Longrightarrow> filter (\<lambda>x. T2 \<le> snd x) (entry e T1 p) = entry e T2 p"
  by (simp add: entry_def try_body_def Let_def split: sum.splits)

lemma filter_scan:
  "T1 \<le> T2 \<Longrightarrow>
     filter (\<lambda>x. T2 \<le> snd x) (concat (map (entry e T1) ps)) = concat (map (entry e T2) ps)"
  by (induction ps) (simp_all add: filter_entry)

lemma large_files_filter:
  "T1 \<le> T2 \<Longrightarrow> large_files e T2 = filter (\<lambda>x. T2 \<le> snd x) (large_files e T1)"
  by (simp add: large_files_def scan_concat filter_sort filter_scan)

lemma entry_key:
  "x \<in> set (entry e T p) \<Longrightarrow> map (casefold e) (root e @ fst x) = map (casefold e) p"
proof -
  assume "x \<in> set (entry e T p)"
  then have k: "map (casefold e) (take (length (root e)) p) = map (casefold e) (root e)"
    and f: "fst x = drop (length (root e)) p"
    by (cases "read_text e p";
        auto simp: entry_def try_body_def relative_to_def Let_def split: if_splits)+
  have "map (casefold e) (root e @ fst x)
          = map (casefold e) (take (length (root e)) p) @ map (casefold e) (drop (length (root e)) p)"
    using k f by simp
  also have "\<dots> = map (casefold e) p"
    by (simp only: map_append [symmetric] append_take_drop_id)
  finally show ?thesis .
qed

lemma entry_length: "length (entry e T p) \<le> 1"
  by (cases "read_text e p")
     (simp_all add: entry_def try_body_def relative_to_def Let_def)

lemma large_files_readable:
  "large_files (e\<lparr>listing := filter (\<lambda>rel. \<not> isl (read_text e (root e @ rel))) (listing e)\<rparr>) T
     = large_files e T"
proof -
  let ?e' = "e\<lparr>listing := filter (\<lambda>rel. \<not> isl (read_text e (root e @ rel))) (listing e)\<rparr>"
  have ent: "entry ?e' T = entry e T"
    by (rule ext) (simp add: entry_def try_body_def Let_def cong: sum.case_cong if_cong)
  have rg: "rglob ?e' = filter (\<lambda>p. \<not> isl (read_text e p)) (rglob e)"
    by (simp add: rglob_def filter_map comp_def) (metis (mono_tags, lifting) filter_cong)
  have drop: "concat (map (entry e T) (filter (\<lambda>p. \<not> isl (read_text e p)) ps))
                = concat (map (entry e T) ps)" for ps
    by (induction ps) (auto simp: entry_def try_body_def split: sum.splits)
  show ?thesis
    by (simp add: large_files_def sorted_paths_def scan_concat ent rg filter_sort [symmetric] drop)
qed

section \<open>Properties of the two sorts\<close>

lemma sorted_scan:
  "sorted (map (map (casefold e)) ps) \<Longrightarrow>
     sorted (map (\<lambda>x. map (casefold e) (root e @ fst x)) (concat (map (entry e T) ps)))"
proof (induction ps)
  case Nil
  show ?case by simp
next
  case (Cons p ps)
  have tl: "sorted (map (\<lambda>x. map (casefold e) (root e @ fst x)) (concat (map (entry e T) ps)))"
    using Cons by simp
  have later: "map (casefold e) p \<le> map (casefold e) (root e @ fst y)"
    if "y \<in> set (concat (map (entry e T) ps))" for y
  proof -
    from that obtain q where q: "q \<in> set ps" "y \<in> set (entry e T q)" by auto
    have "map (casefold e) (root e @ fst y) = map (casefold e) q"
      using q(2) by (rule entry_key)
    moreover have "map (casefold e) p \<le> map (casefold e) q" using Cons.prems q(1) by simp
    ultimately show ?thesis by (simp only:)
  qed
  show ?case
  proof (cases "entry e T p")
    case Nil
    then show ?thesis using tl by simp
  next
    case (Cons x xs)
    then have "xs = []" using entry_length [of e T p] by simp
    moreover have "map (casefold e) (root e @ fst x) = map (casefold e) p"
      by (rule entry_key [of x e T p]) (simp add: Cons)
    ultimately show ?thesis
      using Cons tl later by (simp del: map_append)
  qed
qed

text \<open>A stable sort by one key keeps a list that was sorted by another key sorted by it
  among the elements of equal first key.\<close>

lemma insort_ties:
  fixes f :: "'a \<Rightarrow> int" and g :: "'a \<Rightarrow> 'b :: linorder"
  assumes "sorted_wrt (\<lambda>x y. f x < f y \<or> (f x = f y \<and> g x \<le> g y)) ys"
    and "\<forall>y \<in> set ys. g a \<le> g y"
  shows "sorted_wrt (\<lambda>x y. f x < f y \<or> (f x = f y \<and> g x \<le> g y)) (insort_key f a ys)"
  using assms
proof (induction ys)
  case Nil
  then show ?case by simp
next
  case (Cons y ys)
  show ?case
  proof (cases "f a \<le> f y")
    case True
    have "f a < f z \<or> (f a = f z \<and> g a \<le> g z)" if "z \<in> set (y # ys)" for z
    proof -
      have "f y < f z \<or> f y = f z" if "z \<in> set ys" using Cons.prems(1) that by auto
      then have "f a \<le> f z" using True \<open>z \<in> set (y # ys)\<close> by auto
      moreover have "g a \<le> g z" using Cons.prems(2) \<open>z \<in> set (y # ys)\<close> by blast
      ultimately show ?thesis by linarith
    qed
    then show ?thesis using True Cons.prems(1) by simp
  next
    case False
    have ih: "sorted_wrt (\<lambda>x y. f x < f y \<or> (f x = f y \<and> g x \<le> g y)) (insort_key f a ys)"
      using Cons by simp
    have "f y < f z \<or> (f y = f z \<and> g y \<le> g z)" if "z \<in> set (insort_key f a ys)" for z
      using that False Cons.prems(1) by (auto simp: set_insort_key)
    then show ?thesis using False ih by simp
  qed
qed

lemma sort_key_ties:
  fixes f :: "'a \<Rightarrow> int" and g :: "'a \<Rightarrow> 'b :: linorder"
  shows "sorted (map g xs) \<Longrightarrow>
    sorted_wrt (\<lambda>x y. f x < f y \<or> (f x = f y \<and> g x \<le> g y)) (sort_key f xs)"
proof (induction xs)
  case Nil
  show ?case by simp
next
  case (Cons a xs)
  have "sorted_wrt (\<lambda>x y. f x < f y \<or> (f x = f y \<and> g x \<le> g y)) (sort_key f xs)"
    using Cons by simp
  moreover have "\<forall>y \<in> set (sort_key f xs). g a \<le> g y"
    using Cons.prems by simp
  ultimately show ?case by (simp add: insort_ties)
qed

lemma large_files_order:
  "sorted_wrt (\<lambda>x y. snd y < snd x
                 \<or> (snd x = snd y
                     \<and> map (casefold e) (root e @ fst x) \<le> map (casefold e) (root e @ fst y)))
     (large_files e T)"
proof -
  have "sorted (map (map (casefold e)) (sorted_paths e (rglob e)))"
    by (simp add: sorted_paths_def parts_def)
  then have "sorted (map (\<lambda>x. map (casefold e) (root e @ fst x))
                       (concat (map (entry e T) (sorted_paths e (rglob e)))))"
    by (rule sorted_scan)
  then have "sorted (map (\<lambda>x. map (casefold e) (root e @ fst x))
                       (scan e T (sorted_paths e (rglob e)) []))"
    by (simp only: scan_concat append_Nil)
  then have "sorted_wrt (\<lambda>x y. - snd x < - snd y
                 \<or> (- snd x = - snd y
                     \<and> map (casefold e) (root e @ fst x) \<le> map (casefold e) (root e @ fst y)))
     (sort_key (\<lambda>x. - snd x) (scan e T (sorted_paths e (rglob e)) []))"
    by (rule sort_key_ties)
  then show ?thesis by (simp add: large_files_def)
qed

section \<open>Properties of line counting and of formatting\<close>

lemma split_from_nonempty: "split_from sep cur s \<noteq> []"
  by (induction s arbitrary: cur) auto

lemma is_linebreak_LF: "is_linebreak LF"
  by (simp add: is_linebreak_def)

lemma LF_not_CR: "LF \<noteq> CR"
  by (simp add: LF_def CR_def)

lemma splitlines_from_newlines:
  "\<forall>c \<in> set s. is_linebreak c \<longrightarrow> c = LF \<Longrightarrow>
     splitlines_from cur s =
       (let segs = split_from LF cur s in if last segs = [] then butlast segs else segs)"
proof (induction s arbitrary: cur)
  case Nil
  show ?case by simp
next
  case (Cons c cs)
  have rest: "\<forall>c \<in> set cs. is_linebreak c \<longrightarrow> c = LF" using Cons.prems by simp
  show ?case
  proof (cases "c = LF")
    case True
    have "splitlines_from cur (c # cs) = cur # splitlines_from [] cs"
      using True is_linebreak_LF LF_not_CR by simp
    also have "\<dots> = cur # (let segs = split_from LF [] cs
                              in if last segs = [] then butlast segs else segs)"
      using Cons.IH [OF rest] by simp
    finally show ?thesis
      using True split_from_nonempty [of LF "[]" cs] by (simp add: Let_def)
  next
    case False
    then have "\<not> is_linebreak c" using Cons.prems by auto
    then show ?thesis using False Cons.IH [OF rest] by simp
  qed
qed

lemma line_count_newlines:
  "\<forall>c \<in> set s. is_linebreak c \<longrightarrow> c = LF \<Longrightarrow> line_count s = newline_line_count s"
  by (simp add: line_count_def splitlines_def newline_line_count_def split_on_newline_def
        splitlines_from_newlines Let_def)

lemma str_nat_digits: "set (str_nat n) \<subseteq> {48 ..< 58}"
proof (induction n rule: str_nat.induct)
  case (1 n)
  show ?case
  proof (cases "n < 10")
    case True
    then show ?thesis by (subst str_nat.simps) (simp add: digit_def)
  next
    case False
    have "n mod 10 < 10" by simp
    then have "digit (n mod 10) \<in> {48 ..< 58}" unfolding digit_def by simp
    then show ?thesis using False 1 by (subst str_nat.simps) simp
  qed
qed

lemma str_int_chars: "c \<in> set (str_int i) \<Longrightarrow> c = 45 \<or> (48 \<le> c \<and> c < 58)"
  using str_nat_digits [of "nat i"] str_nat_digits [of "nat (- i)"]
  by (auto simp: str_int_def lit_def split: if_splits)

lemma str_int_encodable: "list_all (can_encode e) (str_int i)"
  unfolding list_all_iff can_encode_def using str_int_chars [of _ i] by fastforce

lemma count_newline_str_int: "count_list (str_int i) LF = 0"
  unfolding count_list_0_iff LF_def using str_int_chars [of 10 i] by auto

lemma rjust_length: "length (rjust w s) = max w (length s)"
  by (simp add: rjust_def)

lemma contains_sublist: "contains sub s = sublist sub s"
  by (induction s) (simp_all add: sublist_Cons_right)

lemma contains_iff: "contains sub s \<longleftrightarrow> (\<exists>pre post. s = pre @ sub @ post)"
  by (simp add: contains_sublist sublist_def)

section \<open>Properties of the report\<close>

lemma print_encodable:
  "list_all (can_encode e) s \<Longrightarrow> print e s out = Inr (out @ s @ [LF])"
  by (simp add: print_def)

lemma rjust_encodable:
  "list_all (can_encode e) s \<Longrightarrow> list_all (can_encode e) (rjust w s)"
  by (auto simp: rjust_def list_all_iff can_encode_def)

lemma entry_line_encodable:
  "list_all (can_encode e) (entry_line x) = list_all (can_encode e) (path_str (fst x))"
  using rjust_encodable [OF str_int_encodable, of e 5 "snd x"]
  by (simp add: entry_line_def case_prod_unfold lit_def can_encode_def)

lemma print_entries_encodable:
  "list_all (\<lambda>x. list_all (can_encode e) (path_str (fst x))) lf \<Longrightarrow>
     print_entries e lf out = (out @ concat (map (\<lambda>x. entry_line x @ [LF]) lf), None)"
  by (induction lf arbitrary: out) (simp_all add: print_encodable entry_line_encodable)

lemma empty_line_encodable:
  "list_all (can_encode e) (lit ''No Rust files with '' @ str_int T @ lit ''+ LOC found.'')"
  using str_int_encodable [of e T] by (simp add: lit_def can_encode_def)

lemma header_encodable:
  "list_all (can_encode e) (lit ''Rust files with '' @ str_int T @ lit ''+ LOC (''
                              @ str_int n @ lit '' files):'' @ [LF])"
  using str_int_encodable [of e T] str_int_encodable [of e n]
  by (simp add: lit_def can_encode_def LF_def)

lemma main_empty:
  "large_files e T = [] \<Longrightarrow>
     main e T = (lit ''No Rust files with '' @ str_int T @ lit ''+ LOC found.'' @ [LF], None)"
  by (simp add: main_def print_encodable [OF empty_line_encodable])

lemma main_nonempty:
  "large_files e T \<noteq> [] \<Longrightarrow>
     main e T = print_entries e (large_files e T)
                  (lit ''Rust files with '' @ str_int T @ lit ''+ LOC (''
                     @ str_int (int (length (large_files e T))) @ lit '' files):'' @ [LF, LF])"
  by (simp add: main_def Let_def print_encodable [OF header_encodable])


section \<open>The five file trees, evaluated\<close>

lemma lit_append: "lit a @ lit b = lit (a @ b)"
  by (simp add: lit_def)

lemma demo_fields:
  "root demo = [lit ''/'', lit ''p'']" "read_text demo = demo_read"
  "casefold demo = (\<lambda>s. s)" "encodable demo = utf8_strict"
  by (simp_all add: demo_def)

lemma demo_sorted:
  "sorted_paths demo (rglob demo) =
     [[lit ''/'', lit ''p'', lit ''a.rs''], [lit ''/'', lit ''p'', lit ''c.rs''],
      [lit ''/'', lit ''p'', lit ''src'', lit ''b.rs''], [lit ''/'', lit ''p'', lit ''x.rs'']]"
  by (simp add: sorted_paths_def parts_def rglob_def demo_def fnmatch_rs_def name_def
        suffix_to_prefix lit_def)

lemma demo_counts:
  "line_count [97, 10, 98, 10, 99] = 3" "line_count [97, 10, 98, 10] = 2" "line_count [97] = 1"
  by (simp_all add: line_count_def splitlines_def is_linebreak_def LF_def CR_def)

lemma demo_not_skipped:
  "\<not> skipped [lit ''/'', lit ''p'', lit ''a.rs'']" "\<not> skipped [lit ''/'', lit ''p'', lit ''c.rs'']"
  "\<not> skipped [lit ''/'', lit ''p'', lit ''src'', lit ''b.rs'']"
  "\<not> skipped [lit ''/'', lit ''p'', lit ''x.rs'']"
  by (simp_all add: skipped_def parts_def name_def lit_def)

lemma demo_scan:
  "scan demo T (sorted_paths demo (rglob demo)) [] =
     filter (\<lambda>x. T \<le> snd x)
       [([lit ''a.rs''], 2), ([lit ''c.rs''], 1), ([lit ''src'', lit ''b.rs''], 3)]"
  by (simp add: demo_sorted demo_not_skipped try_body_def relative_to_def demo_counts
        demo_fields demo_read_def)
     (simp add: lit_def)

lemma demo_large_files:
  "large_files demo 1 = [([lit ''src'', lit ''b.rs''], 3), ([lit ''a.rs''], 2), ([lit ''c.rs''], 1)]"
  "large_files demo 2 = [([lit ''src'', lit ''b.rs''], 3), ([lit ''a.rs''], 2)]"
  "large_files demo 9 = []"
  "large_files demo 500 = []"
  by (simp_all add: large_files_def demo_scan)

lemma ties_large_files:
  "large_files ties 1 = [([lit ''a'', lit ''b.rs''], 1), ([lit ''a-b'', lit ''c.rs''], 1)]"
  by (simp add: large_files_def sorted_paths_def rglob_def ties_def fnmatch_rs_def name_def
        suffix_to_prefix skipped_def parts_def try_body_def relative_to_def demo_counts lit_def)

lemma ties_strings:
  "path_str (root ties @ [lit ''a-b'', lit ''c.rs'']) < path_str (root ties @ [lit ''a'', lit ''b.rs''])"
  by (simp add: ties_def path_str_def lit_def)

lemma excluded_large_files: "large_files excluded 1 = [([lit ''ok.rs''], 1)]"
  by (simp add: large_files_def sorted_paths_def rglob_def excluded_def fnmatch_rs_def name_def
        suffix_to_prefix skipped_def parts_def try_body_def relative_to_def demo_counts lit_def)

lemma undecodable_large_files:
  "large_files undecodable 1 = [([233 # lit ''.rs''], 1), ([56448 # lit ''.rs''], 1)]"
  by (simp add: large_files_def sorted_paths_def rglob_def undecodable_def fnmatch_rs_def name_def
        suffix_to_prefix skipped_def parts_def try_body_def relative_to_def demo_counts lit_def)

lemma str_int_small:
  "str_int 1 = lit ''1''" "str_int 2 = lit ''2''" "str_int 3 = lit ''3''" "str_int 9 = lit ''9''"
  "str_int 500 = lit ''500''"
  by (simp_all add: str_int_def str_nat.simps [of "Suc 0"] str_nat.simps [of 2] str_nat.simps [of 3]
        str_nat.simps [of 9] str_nat.simps [of 500] str_nat.simps [of 50] str_nat.simps [of 5]
        digit_def lit_def)

lemma rjust_small:
  "rjust 5 (lit ''1'') = lit ''    1''" "rjust 5 (lit ''2'') = lit ''    2''"
  "rjust 5 (lit ''3'') = lit ''    3''"
  by (simp_all add: rjust_def numeral_eq_Suc lit_def)

lemma demo_main_2:
  "main demo 2 = (lit ''Rust files with 2+ LOC (2 files):'' @ [LF, LF]
     @ lit ''      3 lines  src/b.rs'' @ [LF] @ lit ''      2 lines  a.rs'' @ [LF], None)"
proof -
  have ne: "large_files demo 2 \<noteq> []" by (simp add: demo_large_files)
  have enc: "list_all (\<lambda>x. list_all (can_encode demo) (path_str (fst x))) (large_files demo 2)"
    by (simp add: demo_large_files path_str_def lit_def can_encode_def)
  show ?thesis
    unfolding main_nonempty [OF ne] print_entries_encodable [OF enc]
    by (simp add: demo_large_files entry_line_def str_int_small rjust_small)
       (simp add: path_str_def lit_def)
qed


section \<open>The claims\<close>

text \<open>
  Claim C1. Whatever the threshold \<open>T\<close> (negative thresholds included), every entry of
  the result list has a line count of at least \<open>T\<close>, and a file that can be read and has
  fewer than \<open>T\<close> lines is in no entry of the report.
\<close>

theorem large_files_at_least_threshold:
  "(\<forall>x \<in> set (large_files e T). T \<le> snd x)
   \<and> (\<forall>rel txt. read_text e (root e @ rel) = Inr txt \<and> line_count txt < T
          \<longrightarrow> rel \<notin> fst ` set (large_files e T))"
proof (intro conjI ballI allI impI)
  fix x
  assume "x \<in> set (large_files e T)"
  then have "(fst x, snd x) \<in> set (large_files e T)" by simp
  then show "T \<le> snd x" unfolding large_files_iff by simp
next
  fix rel t
  assume a: "read_text e (root e @ rel) = Inr t \<and> line_count t < T"
  show "rel \<notin> fst ` set (large_files e T)"
  proof
    assume "rel \<in> fst ` set (large_files e T)"
    then obtain loc where "(rel, loc) \<in> set (large_files e T)" by auto
    then have "\<exists>u. read_text e (root e @ rel) = Inr u \<and> loc = line_count u" and "T \<le> loc"
      unfolding large_files_iff by simp_all
    then show False using a by auto
  qed
qed

text \<open>At threshold 2 the first tree reports its files of three and of two lines, and not
  \<^verbatim>\<open>c.rs\<close>, which has one.\<close>

theorem large_files_at_least_threshold_witness:
  "large_files demo 2 = [([lit ''src'', lit ''b.rs''], 3), ([lit ''a.rs''], 2)]
   \<and> 2 \<le> snd (last (large_files demo 2))
   \<and> read_text demo (root demo @ [lit ''c.rs'']) = Inr [97] \<and> line_count [97] < 2
   \<and> [lit ''c.rs''] \<notin> fst ` set (large_files demo 2)"
proof -
  have r: "read_text demo (root demo @ [lit ''c.rs'']) = Inr [97] \<and> line_count [97] < 2"
    by (simp add: demo_fields demo_read_def demo_counts) (simp add: lit_def)
  have "last (large_files demo 2) \<in> set (large_files demo 2)"
    by (simp add: demo_large_files)
  then have "2 \<le> snd (last (large_files demo 2))"
    using large_files_at_least_threshold [of demo 2] by blast
  moreover have "[lit ''c.rs''] \<notin> fst ` set (large_files demo 2)"
    using large_files_at_least_threshold [of demo 2] r by blast
  ultimately show ?thesis using r by (simp add: demo_large_files)
qed

text \<open>
  Claim C2, as the specification states it, fails: with \<^verbatim>\<open>/p/a/b.rs\<close> and
  \<^verbatim>\<open>/p/a-b/c.rs\<close> of one line each, the report lists \<^verbatim>\<open>a/b.rs\<close> first, and the
  string \<^verbatim>\<open>"/p/a-b/c.rs"\<close> is the smaller one (\<^verbatim>\<open>-\<close> comes before \<^verbatim>\<open>/\<close>).
\<close>

theorem ties_not_in_string_order: "\<not> string_tie_order (root ties) (large_files ties 1)"
  using ties_strings by (simp add: string_tie_order_def ties_large_files)

text \<open>
  Claim C2, amended. The result list is sorted descending by line count, and entries with
  equal line counts appear in the order of their full paths as \<^verbatim>\<open>pathlib\<close> compares
  paths: part by part, each part as a string, code point by code point, after the case
  folding of the path flavour (the enumerated paths are first sorted in that order, and the
  final sort by line count is stable).
\<close>

theorem ties_in_parts_order: "parts_tie_order (casefold e) (root e) (large_files e T)"
  unfolding parts_tie_order_def parts_def by (rule large_files_order)

text \<open>In the second tree \<^verbatim>\<open>a/b.rs\<close> comes before \<^verbatim>\<open>a-b/c.rs\<close>; in the fifth, the
  name with \<^verbatim>\<open>U+00E9\<close> comes before the name with \<^verbatim>\<open>U+DC80\<close>.\<close>

theorem ties_in_parts_order_witness:
  "large_files ties 1 = [([lit ''a'', lit ''b.rs''], 1), ([lit ''a-b'', lit ''c.rs''], 1)]
   \<and> parts_tie_order (casefold ties) (root ties) (large_files ties 1)
   \<and> large_files undecodable 1 = [([233 # lit ''.rs''], 1), ([56448 # lit ''.rs''], 1)]
   \<and> parts_tie_order (casefold undecodable) (root undecodable) (large_files undecodable 1)"
  using ties_in_parts_order [of ties 1] ties_in_parts_order [of undecodable 1]
  by (simp add: ties_large_files undecodable_large_files)

text \<open>
  Claim C3. A file is never in the result list, whatever its line count and whatever the
  threshold, when a part of its full path is \<^verbatim>\<open>target\<close>, or a part of its full path
  is \<^verbatim>\<open>test\<close>, or its base name has \<^verbatim>\<open>test\<close> immediately before the extension
  \<^verbatim>\<open>.rs\<close>, or its base name is \<^verbatim>\<open>bindings.rs\<close>; each of the four rules excludes
  the file by itself.
\<close>

theorem excluded_never_reported:
  "lit ''target'' \<in> set (parts (root e @ rel)) \<or> lit ''test'' \<in> set (parts (root e @ rel))
   \<or> (\<exists>stem. name (root e @ rel) = stem @ lit ''test'' @ lit ''.rs'')
   \<or> name (root e @ rel) = lit ''bindings.rs''
   \<Longrightarrow> rel \<notin> fst ` set (large_files e T)"
proof
  assume rules: "lit ''target'' \<in> set (parts (root e @ rel)) \<or> lit ''test'' \<in> set (parts (root e @ rel))
   \<or> (\<exists>stem. name (root e @ rel) = stem @ lit ''test'' @ lit ''.rs'')
   \<or> name (root e @ rel) = lit ''bindings.rs''"
  assume "rel \<in> fst ` set (large_files e T)"
  then obtain loc where "(rel, loc) \<in> set (large_files e T)" by auto
  then have ns: "\<not> skipped (root e @ rel)" unfolding large_files_iff by simp
  have l: "lit ''test'' @ lit ''.rs'' = lit ''test.rs''" by (simp add: lit_def)
  have "(\<exists>stem. name (root e @ rel) = stem @ lit ''test'' @ lit ''.rs'')
          \<Longrightarrow> contains (lit ''test.rs'') (name (root e @ rel))"
    unfolding contains_iff l by (metis append_Nil2)
  then show False using rules ns unfolding skipped_def by blast
qed

text \<open>The third tree has one file for each rule; only \<^verbatim>\<open>ok.rs\<close> is reported.\<close>

theorem excluded_never_reported_witness:
  "lit ''target'' \<in> set (parts (root excluded @ [lit ''target'', lit ''a.rs'']))
   \<and> [lit ''target'', lit ''a.rs''] \<notin> fst ` set (large_files excluded 1)
   \<and> lit ''test'' \<in> set (parts (root excluded @ [lit ''src'', lit ''test'', lit ''a.rs'']))
   \<and> [lit ''src'', lit ''test'', lit ''a.rs''] \<notin> fst ` set (large_files excluded 1)
   \<and> name (root excluded @ [lit ''x_test.rs'']) = lit ''x_'' @ lit ''test'' @ lit ''.rs''
   \<and> [lit ''x_test.rs''] \<notin> fst ` set (large_files excluded 1)
   \<and> name (root excluded @ [lit ''bindings.rs'']) = lit ''bindings.rs''
   \<and> [lit ''bindings.rs''] \<notin> fst ` set (large_files excluded 1)
   \<and> large_files excluded 1 = [([lit ''ok.rs''], 1)]"
proof -
  have h1: "lit ''target'' \<in> set (parts (root excluded @ [lit ''target'', lit ''a.rs'']))"
    by (simp add: parts_def)
  have h2: "lit ''test'' \<in> set (parts (root excluded @ [lit ''src'', lit ''test'', lit ''a.rs'']))"
    by (simp add: parts_def)
  have h3: "name (root excluded @ [lit ''x_test.rs'']) = lit ''x_'' @ lit ''test'' @ lit ''.rs''"
    by (simp add: name_def lit_def)
  have h4: "name (root excluded @ [lit ''bindings.rs'']) = lit ''bindings.rs''"
    by (simp add: name_def lit_def)
  have c1: "[lit ''target'', lit ''a.rs''] \<notin> fst ` set (large_files excluded 1)"
    using excluded_never_reported [of excluded "[lit ''target'', lit ''a.rs'']" 1] h1 by blast
  have c2: "[lit ''src'', lit ''test'', lit ''a.rs''] \<notin> fst ` set (large_files excluded 1)"
    using excluded_never_reported [of excluded "[lit ''src'', lit ''test'', lit ''a.rs'']" 1] h2
    by blast
  have c3: "[lit ''x_test.rs''] \<notin> fst ` set (large_files excluded 1)"
    using excluded_never_reported [of excluded "[lit ''x_test.rs'']" 1] h3 by blast
  have c4: "[lit ''bindings.rs''] \<notin> fst ` set (large_files excluded 1)"
    using excluded_never_reported [of excluded "[lit ''bindings.rs'']" 1] h4 by blast
  show ?thesis using h1 h2 h3 h4 c1 c2 c3 c4 excluded_large_files by blast
qed

text \<open>
  Claim C4. A file whose read raises is in no entry of the result list, no exception leaves
  the first loop (every exception of its body is a value of \<^const>\<open>try_body\<close>, which
  \<^const>\<open>scan\<close> drops), and the scan goes on: the run is the run on the same tree
  without the files that cannot be read, and every readable Rust file that no rule excludes
  and that has enough lines is reported with its line count.
\<close>

theorem read_failure_skipped:
  "(\<forall>rel. isl (read_text e (root e @ rel)) \<longrightarrow> rel \<notin> fst ` set (large_files e T))
   \<and> main (e\<lparr>listing := filter (\<lambda>rel. \<not> isl (read_text e (root e @ rel))) (listing e)\<rparr>) T
       = main e T
   \<and> (\<forall>rel t. rel \<in> set (listing e) \<and> fnmatch_rs (name rel) \<and> \<not> skipped (root e @ rel)
               \<and> read_text e (root e @ rel) = Inr t \<and> T \<le> line_count t
          \<longrightarrow> (rel, line_count t) \<in> set (large_files e T))"
proof (intro conjI allI impI)
  fix rel
  assume f: "isl (read_text e (root e @ rel))"
  show "rel \<notin> fst ` set (large_files e T)"
  proof
    assume "rel \<in> fst ` set (large_files e T)"
    then obtain loc where "(rel, loc) \<in> set (large_files e T)" by auto
    then have "\<exists>u. read_text e (root e @ rel) = Inr u" unfolding large_files_iff by blast
    then show False using f by auto
  qed
next
  let ?e' = "e\<lparr>listing := filter (\<lambda>rel. \<not> isl (read_text e (root e @ rel))) (listing e)\<rparr>"
  have lf: "large_files ?e' T = large_files e T" by (rule large_files_readable)
  have "can_encode ?e' = can_encode e"
    by (rule ext) (simp add: can_encode_def)
  then have p: "print ?e' = print e"
    by (intro ext) (simp add: print_def)
  have pe: "print_entries ?e' xs out = print_entries e xs out" for xs out
    by (induction xs arbitrary: out) (simp_all add: p split: sum.splits)
  show "main ?e' T = main e T"
  proof (cases "large_files e T = []")
    case True
    then show ?thesis using main_empty [of ?e' T] main_empty [of e T] lf by simp
  next
    case False
    then show ?thesis using main_nonempty [of ?e' T] main_nonempty [of e T] lf pe by simp
  qed
next
  fix rel t
  assume "rel \<in> set (listing e) \<and> fnmatch_rs (name rel) \<and> \<not> skipped (root e @ rel)
            \<and> read_text e (root e @ rel) = Inr t \<and> T \<le> line_count t"
  then show "(rel, line_count t) \<in> set (large_files e T)"
    unfolding large_files_iff by simp
qed

text \<open>In the first tree \<^verbatim>\<open>x.rs\<close> cannot be read; the two large files are reported.\<close>

theorem read_failure_skipped_witness:
  "read_text demo (root demo @ [lit ''x.rs'']) = Inl OSError
   \<and> [lit ''x.rs''] \<notin> fst ` set (large_files demo 2)
   \<and> main (demo\<lparr>listing := filter (\<lambda>rel. \<not> isl (read_text demo (root demo @ rel)))
                                  (listing demo)\<rparr>) 2 = main demo 2
   \<and> ([lit ''a.rs''], 2) \<in> set (large_files demo 2)
   \<and> main demo 2 = (lit ''Rust files with 2+ LOC (2 files):'' @ [LF, LF]
        @ lit ''      3 lines  src/b.rs'' @ [LF] @ lit ''      2 lines  a.rs'' @ [LF], None)"
proof -
  have f: "read_text demo (root demo @ [lit ''x.rs'']) = Inl OSError"
    by (simp add: demo_fields demo_read_def) (simp add: lit_def)
  then have "isl (read_text demo (root demo @ [lit ''x.rs'']))" by simp
  then have c1: "[lit ''x.rs''] \<notin> fst ` set (large_files demo 2)"
    using read_failure_skipped [of demo 2] by blast
  have c2: "main (demo\<lparr>listing := filter (\<lambda>rel. \<not> isl (read_text demo (root demo @ rel)))
                                  (listing demo)\<rparr>) 2 = main demo 2"
    using read_failure_skipped [of demo 2] by blast
  have a: "[lit ''a.rs''] \<in> set (listing demo) \<and> fnmatch_rs (name [lit ''a.rs''])
             \<and> \<not> skipped (root demo @ [lit ''a.rs''])
             \<and> read_text demo (root demo @ [lit ''a.rs'']) = Inr [97, 10, 98, 10]
             \<and> 2 \<le> line_count [97, 10, 98, 10]"
    by (simp add: demo_fields demo_read_def demo_counts demo_not_skipped)
       (simp add: demo_def fnmatch_rs_def name_def suffix_to_prefix lit_def)
  have c3: "([lit ''a.rs''], line_count [97, 10, 98, 10]) \<in> set (large_files demo 2)"
    using read_failure_skipped [of demo 2] a by blast
  show ?thesis using f c1 c2 c3 demo_main_2 by (simp add: demo_counts)
qed

text \<open>
  Claim C5, as the specification states it, fails: the text \<^verbatim>\<open>a\fb\<close> (a form feed
  between two letters) has no newline, so it is one segment under split-on-newline, and
  \<^verbatim>\<open>str.splitlines\<close> counts two lines.
\<close>

theorem form_feed_ends_a_line:
  "line_count [97, 12, 98] \<noteq> newline_line_count [97, 12, 98]"
  by (simp add: line_count_def splitlines_def is_linebreak_def LF_def CR_def
        newline_line_count_def split_on_newline_def)

text \<open>
  Claim C5, amended. For every text whose only line boundary character is the newline, the
  computed line count is the number of segments under split-on-newline, the last segment
  counted when it is not empty; the empty text has 0 lines, \<^verbatim>\<open>a\nb\<close> has 2 lines and
  \<^verbatim>\<open>a\nb\n\<close> has 2 lines. (The other line boundaries of \<^verbatim>\<open>str.splitlines\<close> end a
  line as well.)
\<close>

theorem line_count_split_on_newline:
  "((\<forall>c \<in> set s. is_linebreak c \<longrightarrow> c = LF) \<longrightarrow> line_count s = newline_line_count s)
   \<and> line_count [] = 0
   \<and> line_count [97, LF, 98] = 2
   \<and> line_count [97, LF, 98, LF] = 2"
proof (intro conjI impI)
  assume "\<forall>c \<in> set s. is_linebreak c \<longrightarrow> c = LF"
  then show "line_count s = newline_line_count s" by (rule line_count_newlines)
qed (simp_all add: line_count_def splitlines_def is_linebreak_def LF_def CR_def)

theorem line_count_split_on_newline_witness:
  "line_count [97, LF, 98] = newline_line_count [97, LF, 98]
   \<and> newline_line_count [97, LF, 98] = 2
   \<and> line_count [97, LF, 98, LF] = newline_line_count [97, LF, 98, LF]
   \<and> newline_line_count [97, LF, 98, LF] = 2"
proof -
  have h1: "\<forall>c \<in> set [97, LF, 98]. is_linebreak c \<longrightarrow> c = LF"
    by (simp add: is_linebreak_def LF_def CR_def)
  have h2: "\<forall>c \<in> set [97, LF, 98, LF]. is_linebreak c \<longrightarrow> c = LF"
    by (simp add: is_linebreak_def LF_def CR_def)
  have c1: "line_count [97, LF, 98] = newline_line_count [97, LF, 98]"
    using line_count_split_on_newline [of "[97, LF, 98]"] h1 by blast
  have c2: "line_count [97, LF, 98, LF] = newline_line_count [97, LF, 98, LF]"
    using line_count_split_on_newline [of "[97, LF, 98, LF]"] h2 by blast
  have "newline_line_count [97, LF, 98] = 2" "newline_line_count [97, LF, 98, LF] = 2"
    by (simp_all add: newline_line_count_def split_on_newline_def LF_def)
  then show ?thesis using c1 c2 by simp
qed

text \<open>
  Claim C6. When the result list is empty, the output is exactly the one line
  \<^verbatim>\<open>No Rust files with T+ LOC found.\<close> with the threshold in decimal for \<^verbatim>\<open>T\<close>:
  the output ends with its only newline, and the run ends without an exception.
\<close>

theorem empty_report:
  "large_files e T = [] \<Longrightarrow>
     main e T = (lit ''No Rust files with '' @ str_int T @ lit ''+ LOC found.'' @ [LF], None)
     \<and> count_list (fst (main e T)) LF = 1"
proof -
  assume "large_files e T = []"
  then have m: "main e T = (lit ''No Rust files with '' @ str_int T @ lit ''+ LOC found.'' @ [LF], None)"
    by (rule main_empty)
  have "count_list (lit ''No Rust files with '') LF = 0" "count_list (lit ''+ LOC found.'') LF = 0"
    by (simp_all add: lit_def LF_def)
  then show ?thesis using m by (simp add: count_newline_str_int)
qed

text \<open>No file of the first tree has nine lines.\<close>

theorem empty_report_witness:
  "large_files demo 9 = []
   \<and> main demo 9 = (lit ''No Rust files with 9+ LOC found.'' @ [LF], None)
   \<and> count_list (fst (main demo 9)) LF = 1"
proof -
  have e: "large_files demo 9 = []" by (simp add: demo_large_files)
  have l: "lit ''No Rust files with '' @ str_int 9 @ lit ''+ LOC found.'' @ [LF]
             = lit ''No Rust files with 9+ LOC found.'' @ [LF]"
    by (simp add: str_int_small lit_append)
  note r = empty_report [OF e]
  have m: "main demo 9 = (lit ''No Rust files with 9+ LOC found.'' @ [LF], None)"
    by (simp only: r [THEN conjunct1] l)
  have c: "count_list (fst (main demo 9)) LF = 1"
    by (rule r [THEN conjunct2])
  show ?thesis by (intro conjI e m c)
qed




text \<open>
  Claim C8. The script calls \<^verbatim>\<open>main()\<close> without an argument, and the parameter
  defaults to 500: the run is the run with threshold 500. An argument, when a caller gives
  one, is the threshold.
\<close>

theorem default_threshold:
  "dunder_main e = main e 500 \<and> script e None = main e 500 \<and> script e (Some T) = main e T"
  by (simp add: dunder_main_def script_def)

theorem default_threshold_witness:
  "dunder_main demo = (lit ''No Rust files with 500+ LOC found.'' @ [LF], None)"
  using default_threshold [of demo]
  by (simp add: main_empty demo_large_files str_int_small lit_append)

text \<open>
  Claim C9. The exclusion rules test the parts of the full path, those of the anchor directory
  included: when a part of the anchor directory's path is \<^verbatim>\<open>target\<close> or \<^verbatim>\<open>test\<close>,
  the result list is empty and the output is the empty report, whatever the tree holds.
\<close>

theorem anchor_component_excludes_all:
  "lit ''target'' \<in> set (parts (root e)) \<or> lit ''test'' \<in> set (parts (root e)) \<Longrightarrow>
     large_files e T = []
     \<and> main e T = (lit ''No Rust files with '' @ str_int T @ lit ''+ LOC found.'' @ [LF], None)"
proof -
  assume a: "lit ''target'' \<in> set (parts (root e)) \<or> lit ''test'' \<in> set (parts (root e))"
  have "skipped (root e @ rel)" for rel
    using a by (auto simp: skipped_def parts_def)
  then have "x \<notin> set (large_files e T)" for x
    using large_files_iff [of "fst x" "snd x" e T] by simp
  then have "large_files e T = []" by (cases "large_files e T") auto
  then show ?thesis by (simp add: main_empty)
qed

text \<open>The fourth tree: a readable one-line file below \<^verbatim>\<open>/target/p\<close>, threshold 1.\<close>

theorem anchor_component_excludes_all_witness:
  "lit ''target'' \<in> set (parts (root anchored))
   \<and> read_text anchored (root anchored @ [lit ''a.rs'']) = Inr [97]
   \<and> large_files anchored 1 = []
   \<and> main anchored 1 = (lit ''No Rust files with 1+ LOC found.'' @ [LF], None)"
proof -
  have h: "lit ''target'' \<in> set (parts (root anchored))" by (simp add: anchored_def parts_def)
  then have "lit ''target'' \<in> set (parts (root anchored)) \<or> lit ''test'' \<in> set (parts (root anchored))"
    by simp
  from anchor_component_excludes_all [OF this, of 1] h show ?thesis
    by (simp add: str_int_small lit_append) (simp add: anchored_def)
qed

text \<open>
  Claim C10. For thresholds \<open>T1 \<le> T2\<close> and one tree, the result list at \<open>T2\<close> is the
  result list at \<open>T1\<close> without the entries below \<open>T2\<close>: every entry at \<open>T2\<close> is an
  entry at \<open>T1\<close> with the same line count, and the common entries are in the same order.
\<close>

theorem threshold_antitone:
  "T1 \<le> T2 \<Longrightarrow>
     large_files e T2 = filter (\<lambda>x. T2 \<le> snd x) (large_files e T1)
     \<and> set (large_files e T2) \<subseteq> set (large_files e T1)
     \<and> subseq (large_files e T2) (large_files e T1)"
proof -
  assume "T1 \<le> T2"
  then have eq: "large_files e T2 = filter (\<lambda>x. T2 \<le> snd x) (large_files e T1)"
    by (rule large_files_filter)
  have "set (large_files e T2) \<subseteq> set (large_files e T1)" by (subst eq) auto
  moreover have "subseq (large_files e T2) (large_files e T1)" by (subst eq) simp
  ultimately show ?thesis using eq by simp
qed

theorem threshold_antitone_witness:
  "(1::int) \<le> 2
   \<and> large_files demo 1 = [([lit ''src'', lit ''b.rs''], 3), ([lit ''a.rs''], 2), ([lit ''c.rs''], 1)]
   \<and> large_files demo 2 = [([lit ''src'', lit ''b.rs''], 3), ([lit ''a.rs''], 2)]
   \<and> subseq (large_files demo 2) (large_files demo 1)"
proof -
  have h: "(1::int) \<le> 2" by simp
  show ?thesis using threshold_antitone [OF h, of demo] by (simp add: demo_large_files)
qed

end
